theory Spec2Isabelle
  imports Complex_Main "HOL-Library.Word"
begin

section \<open>The accounter of cmd/accounting-reader.go\<close>

text \<open>
  The Go file keeps one struct, \<open>accounter\<close>, with an atomically updated
  \<open>int64\<close> counter, a \<open>sync.Once\<close>, a channel that is only ever closed, and a
  background goroutine. Its methods are embedded here as functions on a record of
  the struct's fields (the pointer receiver is the state that is passed through).
\<close>

subsection \<open>Library types\<close>

text \<open>Go's \<open>int64\<close>: addition and subtraction wrap around, comparison is signed.\<close>

type_synonym int64 = "64 word"

text \<open>
  \<open>time.Time\<close> is read as a number of nanoseconds on the process's clock;
  \<open>time.Duration\<close> is an \<open>int64\<close> count of nanoseconds. \<open>Time.Sub\<close> saturates at the
  smallest and largest \<open>Duration\<close>, as the library documents.
\<close>

type_synonym time_Time = int
type_synonym time_Duration = int64

definition time_Millisecond :: time_Duration where
  "time_Millisecond = 1000000"

definition time_Second :: time_Duration where
  "time_Second = 1000000000"

definition time_Sub :: "time_Time \<Rightarrow> time_Time \<Rightarrow> time_Duration" where
  "time_Sub t u =
     (let d = t - u
      in if d < - (2 ^ 63) then word_of_int (- (2 ^ 63))
         else if 2 ^ 63 - 1 < d then word_of_int (2 ^ 63 - 1)
         else word_of_int d)"

text \<open>
  \<open>float64\<close> arithmetic is not interpreted: the three operations that \<open>write\<close>
  uses (the conversion \<open>float64(x)\<close> of an \<open>int64\<close>, the division, the literal
  \<open>0.0\<close>) are parameters, so that every theorem below holds for IEEE binary64 as
  for any other reading of them.
\<close>

record 'f float64_ops =
  float64_of :: "int64 \<Rightarrow> 'f"
  float64_div :: "'f \<Rightarrow> 'f \<Rightarrow> 'f"
  float64_zero :: "'f"

text \<open>
  Where a closed theorem needs numbers, the operations are read over the rationals,
  with exact division. At the inputs evaluated below every conversion and
  quotient is exactly representable in binary64 and no divisor is zero, so binary64
  computes the same values there.
\<close>

definition exact_ops :: "rat float64_ops" where
  "exact_ops =
     \<lparr> float64_of = (\<lambda>x. of_int (sint x)),
       float64_div = (\<lambda>x y. x / y),
       float64_zero = 0 \<rparr>"

text \<open>
  A channel of \<open>struct{}\<close> on which nothing is ever sent: all that matters is
  whether it has been closed. Closing a closed channel panics.
\<close>

datatype chan = ChanOpen | ChanClosed

datatype panic = PanicCloseOfClosedChannel

definition close :: "chan \<Rightarrow> panic + chan" where
  "close c = (case c of ChanOpen \<Rightarrow> Inr ChanClosed | ChanClosed \<Rightarrow> Inl PanicCloseOfClosedChannel)"

text \<open>
  \<open>sync.Once\<close> is its \<open>done\<close> flag. Its mutex is held exactly while a goroutine
  is inside the function passed to \<open>Do\<close>; which goroutine that is belongs to the
  configuration of the concurrent system below. \<open>Do\<close> sets the flag in a deferred
  call, so also when the function panics.
\<close>

type_synonym sync_Once = bool

text \<open>
  Go's \<open>int\<close> on a 64-bit platform, bytes, and a non-nil value of the \<open>error\<close>
  interface (\<open>nil\<close> is \<open>None\<close>).
\<close>

type_synonym go_int = "64 word"
type_synonym byte = "8 word"
datatype go_error = GoError string

subsection \<open>The struct and its constructor\<close>

record accounter =
  current :: int64
  Total :: int64
  startTime :: time_Time
  startValue :: int64
  refreshRate :: time_Duration
  currentValue :: int64
  finishOnce :: sync_Once
  isFinished :: chan

record 'f accountStat =
  Total :: int64
  Transferred :: int64
  Speed :: 'f

text \<open>
  \<open>newAccounter\<close>: \<open>now\<close> is what \<open>time.Now()\<close> returns. The fields the literal
  does not name are zero. The goroutine started by \<open>go acct.writer()\<close> is part of
  the concurrent system below.
\<close>

definition newAccounter :: "time_Time \<Rightarrow> int64 \<Rightarrow> accounter" where
  "newAccounter now tot =
     \<lparr> current = 0,
       accounter.Total = tot,
       startTime = now,
       startValue = 0,
       refreshRate = time_Millisecond * 200,
       currentValue = - 1,
       finishOnce = False,
       isFinished = ChanOpen \<rparr>"

subsection \<open>The methods\<close>

text \<open>
  The method \<open>write\<close> is named \<open>write_speed\<close> here (\<open>write\<close> is a keyword
  of the proof language). \<open>now\<close> is the value of its call of \<open>time.Now()\<close>.
\<close>

definition write_speed :: "'f float64_ops \<Rightarrow> time_Time \<Rightarrow> accounter \<Rightarrow> int64 \<Rightarrow> 'f" where
  "write_speed F now a cur =
     (let fromStart = time_Sub now (startTime a);
          currentFromStart = cur - startValue a
      in if 0 <s currentFromStart
         then float64_div F (float64_of F currentFromStart)
                (float64_div F (float64_of F fromStart) (float64_of F time_Second))
         else float64_zero F)"

definition Update :: "'f float64_ops \<Rightarrow> time_Time \<Rightarrow> accounter \<Rightarrow> accounter" where
  "Update F now a =
     (let c = current a
      in if c \<noteq> currentValue a
         then (let discarded = write_speed F now a c in a\<lparr>currentValue := c\<rparr>)
         else a)"

definition Set :: "int64 \<Rightarrow> accounter \<Rightarrow> accounter" where
  "Set n a = a\<lparr>current := n\<rparr>"

definition Add :: "int64 \<Rightarrow> accounter \<Rightarrow> int64 \<times> accounter" where
  "Add n a = (let new = current a + n in (new, a\<lparr>current := new\<rparr>))"

definition Read :: "byte list \<Rightarrow> accounter \<Rightarrow> (go_int \<times> go_error option) \<times> accounter" where
  "Read p a =
     (let n = (of_nat (length p) :: go_int);
          (new, a') = Add (scast n) a
      in ((n, None), a'))"

text \<open>
  \<open>Stat\<close>. The zero value of \<open>accountStat\<close> is what \<open>var acntStat accountStat\<close>
  holds until the function passed to \<open>finishOnce.Do\<close> assigns to it. That function
  is split where another goroutine can change \<open>a.current\<close> between its two reads:
  \<open>Stat_body_begin\<close> is \<open>close(a.isFinished)\<close> and the assignments of \<open>Total\<close> and
  \<open>Transferred\<close> (the plain read \<open>a.current\<close>); \<open>Stat_body_end\<close> is the assignment
  of \<open>Speed\<close> from \<open>atomic.LoadInt64(&a.current)\<close>. \<open>Stat\<close> is the call with no
  other goroutine in between.
\<close>

definition accountStat_zero :: "'f float64_ops \<Rightarrow> 'f accountStat" where
  "accountStat_zero F = \<lparr> Total = 0, Transferred = 0, Speed = float64_zero F \<rparr>"

definition Stat_body_begin ::
  "'f accountStat \<Rightarrow> accounter \<Rightarrow> panic + ('f accountStat \<times> accounter)" where
  "Stat_body_begin acntStat a =
     (case close (isFinished a) of
        Inl e \<Rightarrow> Inl e
      | Inr ch \<Rightarrow>
          Inr (acntStat\<lparr> Total := accounter.Total a, Transferred := current a \<rparr>,
               a\<lparr>isFinished := ch\<rparr>))"

definition Stat_body_end ::
  "'f float64_ops \<Rightarrow> time_Time \<Rightarrow> 'f accountStat \<Rightarrow> accounter \<Rightarrow> 'f accountStat" where
  "Stat_body_end F now acntStat a =
     (let loaded = current a in acntStat\<lparr> Speed := write_speed F now a loaded \<rparr>)"

definition Stat ::
  "'f float64_ops \<Rightarrow> time_Time \<Rightarrow> accounter \<Rightarrow> (panic + 'f accountStat) \<times> accounter" where
  "Stat F now a =
     (let acntStat = accountStat_zero F
      in if finishOnce a then (Inr acntStat, a)
         else (case Stat_body_begin acntStat a of
                 Inl e \<Rightarrow> (Inl e, a\<lparr>finishOnce := True\<rparr>)
               | Inr (acntStat', a') \<Rightarrow>
                   (Inr (Stat_body_end F now acntStat' a'), a'\<lparr>finishOnce := True\<rparr>)))"

subsection \<open>Sequences of calls\<close>

text \<open>
  One call of a method by a single goroutine, with the clock reading the call
  takes, and a sequence of such calls. A panic ends the sequence.
\<close>

datatype op =
    OpAdd int64
  | OpSet int64
  | OpRead "byte list"
  | OpUpdate time_Time
  | OpStat time_Time

fun call :: "'f float64_ops \<Rightarrow> op \<Rightarrow> accounter \<Rightarrow> panic + accounter" where
  "call F (OpAdd n) a = Inr (snd (Add n a))"
| "call F (OpSet n) a = Inr (Set n a)"
| "call F (OpRead p) a = Inr (snd (Read p a))"
| "call F (OpUpdate now) a = Inr (Update F now a)"
| "call F (OpStat now) a =
     (case Stat F now a of (Inl e, a') \<Rightarrow> Inl e | (Inr st, a') \<Rightarrow> Inr a')"

fun calls :: "'f float64_ops \<Rightarrow> op list \<Rightarrow> accounter \<Rightarrow> panic + accounter" where
  "calls F [] a = Inr a"
| "calls F (x # xs) a = (case call F x a of Inl e \<Rightarrow> Inl e | Inr a' \<Rightarrow> calls F xs a')"

fun is_Stat :: "op \<Rightarrow> bool" where
  "is_Stat (OpStat now) = True"
| "is_Stat x = False"

fun is_Set :: "op \<Rightarrow> bool" where
  "is_Set (OpSet n) = True"
| "is_Set x = False"

fun is_Update :: "op \<Rightarrow> bool" where
  "is_Update (OpUpdate now) = True"
| "is_Update x = False"

text \<open>What a call adds to the counter, as a mathematical integer.\<close>

fun amount :: "op \<Rightarrow> int" where
  "amount (OpAdd n) = sint n"
| "amount (OpRead p) = int (length p)"
| "amount x = 0"

text \<open>
  The \<open>Once\<close> has run exactly when the channel is closed: the only \<open>close\<close> of the
  file stands inside the function passed to \<open>finishOnce.Do\<close>.
\<close>

definition consistent :: "accounter \<Rightarrow> bool" where
  "consistent a = (finishOnce a = (isFinished a = ChanClosed))"

subsection \<open>The goroutines\<close>

text \<open>
  The concurrent system: the struct, the goroutine \<open>writer\<close> started by
  \<open>newAccounter\<close>, and any number of goroutines calling the methods. A schedule is
  the list of the atomic actions in the order in which they take effect.

  \<^item> \<open>Add\<close>, \<open>Set\<close> and \<open>Read\<close> touch the struct in one atomic instruction.
  \<^item> \<open>Stat\<close> by goroutine \<open>g\<close> is \<open>StatBegin g\<close>, then \<open>StatEnd g\<close>, split between
    the two reads of \<open>a.current\<close>. A goroutine that calls \<open>Stat\<close> while another is
    inside the function of the \<open>Once\<close> waits for its mutex: \<open>StatBegin\<close> is not
    enabled then. When \<open>done\<close> is set it returns the zero \<open>acntStat\<close> at once.
  \<^item> \<open>writer\<close> is \<open>WStart\<close> before its first \<open>a.Update()\<close>, \<open>WSelect\<close> at the
    \<open>select\<close>, \<open>WReturned\<close> after \<open>return\<close>. \<open>WriterStart\<close> is the first call of
    \<open>Update\<close>; \<open>WriterTick\<close> is the case of \<open>time.After\<close> with its \<open>Update\<close> (the
    timer is not modelled: the case may be taken whenever the goroutine is at the
    \<open>select\<close>); \<open>WriterStop\<close> is the case \<open><-a.isFinished\<close>, which can be taken only
    once the channel is closed. Only \<open>writer\<close> calls \<open>Update\<close>, which reads
    \<open>a.current\<close> once, so the call is one action.
  \<close>

datatype writer_pc = WStart | WSelect | WReturned

datatype event = EvClose | EvUpdate | EvReturn

datatype action =
    GoAdd int64
  | GoSet int64
  | GoRead "byte list"
  | StatBegin nat
  | StatEnd nat time_Time
  | WriterStart time_Time
  | WriterTick time_Time
  | WriterStop

text \<open>
  \<open>in_Do\<close> is the goroutine inside the function of the \<open>Once\<close> with its local
  \<open>acntStat\<close>; \<open>returned\<close> lists what the calls of \<open>Stat\<close> have returned, and
  \<open>trace\<close> the executions of \<open>close(a.isFinished)\<close>, the calls of \<open>Update\<close> by
  \<open>writer\<close> and its \<open>return\<close>, both with the latest first.
\<close>

record 'f system =
  acct :: accounter
  writer_at :: writer_pc
  in_Do :: "(nat \<times> 'f accountStat) option"
  returned :: "(nat \<times> 'f accountStat) list"
  trace :: "event list"

definition start :: "time_Time \<Rightarrow> int64 \<Rightarrow> 'f system" where
  "start now tot =
     \<lparr> acct = newAccounter now tot, writer_at = WStart, in_Do = None,
       returned = [], trace = [] \<rparr>"

text \<open>\<open>None\<close>: the action is not enabled. \<open>Some (Inl e)\<close>: the action panics.\<close>

fun step :: "'f float64_ops \<Rightarrow> action \<Rightarrow> 'f system \<Rightarrow> (panic + 'f system) option" where
  "step F (GoAdd n) s = Some (Inr (s\<lparr>acct := snd (Add n (acct s))\<rparr>))"
| "step F (GoSet n) s = Some (Inr (s\<lparr>acct := Set n (acct s)\<rparr>))"
| "step F (GoRead p) s = Some (Inr (s\<lparr>acct := snd (Read p (acct s))\<rparr>))"
| "step F (StatBegin g) s =
     (case in_Do s of
        Some other \<Rightarrow> None
      | None \<Rightarrow>
          if finishOnce (acct s)
          then Some (Inr (s\<lparr>returned := (g, accountStat_zero F) # returned s\<rparr>))
          else (case Stat_body_begin (accountStat_zero F) (acct s) of
                  Inl e \<Rightarrow> Some (Inl e)
                | Inr (acntStat, a') \<Rightarrow>
                    Some (Inr (s\<lparr>acct := a', in_Do := Some (g, acntStat),
                                 trace := EvClose # trace s\<rparr>))))"
| "step F (StatEnd g now) s =
     (case in_Do s of
        None \<Rightarrow> None
      | Some (g', acntStat) \<Rightarrow>
          if g' = g
          then Some (Inr (s\<lparr>acct := (acct s)\<lparr>finishOnce := True\<rparr>, in_Do := None,
                  returned := (g, Stat_body_end F now acntStat (acct s)) # returned s\<rparr>))
          else None)"
| "step F (WriterStart now) s =
     (if writer_at s = WStart
      then Some (Inr (s\<lparr>acct := Update F now (acct s), writer_at := WSelect,
                       trace := EvUpdate # trace s\<rparr>))
      else None)"
| "step F (WriterTick now) s =
     (if writer_at s = WSelect
      then Some (Inr (s\<lparr>acct := Update F now (acct s), trace := EvUpdate # trace s\<rparr>))
      else None)"
| "step F WriterStop s =
     (if writer_at s = WSelect \<and> isFinished (acct s) = ChanClosed
      then Some (Inr (s\<lparr>writer_at := WReturned, trace := EvReturn # trace s\<rparr>))
      else None)"

fun run :: "'f float64_ops \<Rightarrow> action list \<Rightarrow> 'f system \<Rightarrow> (panic + 'f system) option" where
  "run F [] s = Some (Inr s)"
| "run F (x # xs) s =
     (case step F x s of
        None \<Rightarrow> None
      | Some (Inl e) \<Rightarrow> Some (Inl e)
      | Some (Inr s') \<Rightarrow> run F xs s')"




text \<open>
  What the calls of \<open>Stat\<close> have returned: nothing before the \<open>Once\<close> has run,
  and the zero \<open>accountStat\<close> in every call but the earliest to return.
\<close>

definition returned_inv :: "'f float64_ops \<Rightarrow> 'f system \<Rightarrow> bool" where
  "returned_inv F s =
     ((returned s = []) = (\<not> finishOnce (acct s))
      \<and> (in_Do s = None \<or> \<not> finishOnce (acct s))
      \<and> list_all (\<lambda>x. snd x = accountStat_zero F) (butlast (returned s)))"

section \<open>Properties\<close>

subsection \<open>The methods, one call at a time\<close>

lemma Add_eq: "Add n a = (current a + n, a\<lparr>current := current a + n\<rparr>)"
  by (simp add: Add_def Let_def)

lemma Read_eq:
  "Read p a = ((of_nat (length p), None), a\<lparr>current := current a + of_nat (length p)\<rparr>)"
  by (simp add: Read_def Add_eq Let_def)

lemma Stat_done: "finishOnce a \<Longrightarrow> Stat F now a = (Inr (accountStat_zero F), a)"
  by (simp add: Stat_def Let_def)

lemma Stat_first:
  "\<not> finishOnce a \<Longrightarrow> isFinished a = ChanOpen \<Longrightarrow>
   Stat F now a =
     (Inr \<lparr> Total = accounter.Total a, Transferred = current a,
            Speed = write_speed F now a (current a) \<rparr>,
      a\<lparr>isFinished := ChanClosed, finishOnce := True\<rparr>)"
  by (simp add: Stat_def Stat_body_begin_def Stat_body_end_def close_def accountStat_zero_def
      write_speed_def Let_def)

lemma Stat_state:
  "snd (Stat F now a) = (if finishOnce a then a else a\<lparr>isFinished := ChanClosed, finishOnce := True\<rparr>)"
  by (cases "isFinished a")
     (simp_all add: Stat_def Stat_body_begin_def close_def Let_def)

lemma newAccounter_consistent: "consistent (newAccounter t0 tot)"
  by (simp add: consistent_def newAccounter_def)

lemma call_consistent:
  "consistent a \<Longrightarrow> \<exists>a'. call F x a = Inr a' \<and> consistent a'"
  by (cases x; cases "isFinished a")
     (auto simp: consistent_def Add_eq Set_def Read_eq Update_def Let_def Stat_done Stat_first)

lemma calls_consistent:
  "consistent a \<Longrightarrow> \<exists>a'. calls F xs a = Inr a' \<and> consistent a'"
proof (induction xs arbitrary: a)
  case Nil
  then show ?case by simp
next
  case (Cons x xs)
  from call_consistent [OF Cons.prems, of F x]
  obtain b where b: "call F x a = Inr b" "consistent b" by blast
  from Cons.IH [OF b(2)] b(1) show ?case by simp
qed


lemma call_no_Stat:
  "\<not> is_Stat x \<Longrightarrow>
   \<exists>a'. call F x a = Inr a' \<and> finishOnce a' = finishOnce a \<and> isFinished a' = isFinished a
     \<and> accounter.Total a' = accounter.Total a \<and> startTime a' = startTime a
     \<and> startValue a' = startValue a"
  by (cases x) (simp_all add: Add_eq Set_def Read_eq Update_def Let_def)

lemma calls_no_Stat:
  "\<forall>x\<in>set xs. \<not> is_Stat x \<Longrightarrow>
   \<exists>a'. calls F xs a = Inr a' \<and> finishOnce a' = finishOnce a \<and> isFinished a' = isFinished a
     \<and> accounter.Total a' = accounter.Total a \<and> startTime a' = startTime a
     \<and> startValue a' = startValue a"
proof (induction xs arbitrary: a)
  case Nil
  then show ?case by simp
next
  case (Cons x xs)
  from Cons.prems have "\<not> is_Stat x" by simp
  from call_no_Stat [OF this, of F a]
  obtain b where b: "call F x a = Inr b" "finishOnce b = finishOnce a"
    "isFinished b = isFinished a" "accounter.Total b = accounter.Total a"
    "startTime b = startTime a" "startValue b = startValue a"
    by blast
  from Cons.prems have "\<forall>y\<in>set xs. \<not> is_Stat y" by simp
  from Cons.IH [OF this, of b] b show ?case by simp
qed

lemma call_finished:
  "finishOnce a \<Longrightarrow> consistent a \<Longrightarrow> \<exists>a'. call F x a = Inr a' \<and> finishOnce a' \<and> consistent a'"
  by (cases x)
     (auto simp: consistent_def Add_eq Set_def Read_eq Update_def Let_def Stat_done)

lemma calls_finished:
  "finishOnce a \<Longrightarrow> consistent a \<Longrightarrow> \<exists>a'. calls F xs a = Inr a' \<and> finishOnce a' \<and> consistent a'"
proof (induction xs arbitrary: a)
  case Nil
  then show ?case by simp
next
  case (Cons x xs)
  from call_finished [OF Cons.prems, of F x]
  obtain b where b: "call F x a = Inr b" "finishOnce b" "consistent b" by blast
  from Cons.IH [OF b(2,3)] b(1) show ?case by simp
qed

subsection \<open>Repeated calls of \<open>Stat\<close>\<close>

text \<open>
  C1 (as amended). On a counter built by \<open>newAccounter\<close> and used through any calls
  other than \<open>Stat\<close>, the first call of \<open>Stat\<close> returns the snapshot computed by
  the function of the \<open>Once\<close>: the total, the counter's value and the speed
  computed from it. Every call of \<open>Stat\<close> after it, whatever other calls lie in
  between, returns the zero \<open>accountStat\<close> and changes nothing: the \<open>Once\<close> skips
  the function and the local \<open>acntStat\<close> is never assigned.
\<close>

theorem Stat_first_computes_later_zero:
  assumes "\<forall>x\<in>set ops. \<not> is_Stat x"
  shows "\<exists>a a1. calls F ops (newAccounter t0 tot) = Inr a
    \<and> Stat F t a =
        (Inr \<lparr> Total = tot, Transferred = current a,
               Speed = write_speed F t a (current a) \<rparr>, a1)
    \<and> (\<forall>ops' t'. \<exists>a2. calls F ops' a1 = Inr a2
          \<and> Stat F t' a2 = (Inr (accountStat_zero F), a2))"
proof -
  from calls_no_Stat [OF assms, of F "newAccounter t0 tot"]
  obtain a where a: "calls F ops (newAccounter t0 tot) = Inr a" "\<not> finishOnce a"
    "isFinished a = ChanOpen" "accounter.Total a = tot"
    by (auto simp: newAccounter_def)
  define a1 where "a1 = a\<lparr>isFinished := ChanClosed, finishOnce := True\<rparr>"
  have first: "Stat F t a =
      (Inr \<lparr> Total = tot, Transferred = current a,
             Speed = write_speed F t a (current a) \<rparr>, a1)"
    using Stat_first [OF a(2,3), of F t] a(4) by (simp add: a1_def)
  have a1: "finishOnce a1" "consistent a1"
    by (simp_all add: a1_def consistent_def)
  have later: "\<exists>a2. calls F ops' a1 = Inr a2 \<and> Stat F t' a2 = (Inr (accountStat_zero F), a2)"
    for ops' t'
  proof -
    from calls_finished [OF a1, of F ops']
    obtain a2 where "calls F ops' a1 = Inr a2" "finishOnce a2" by blast
    then show ?thesis by (simp add: Stat_done)
  qed
  from a(1) first later show ?thesis by blast
qed

theorem Stat_first_computes_later_zero_witness:
  "fst (Stat exact_ops 2000000000 (snd (Add 1000 (newAccounter 0 5))))
     = Inr \<lparr> Total = 5, Transferred = 1000, Speed = 500 \<rparr>
   \<and> fst (Stat exact_ops 3000000000
        (snd (Add 7 (snd (Stat exact_ops 2000000000 (snd (Add 1000 (newAccounter 0 5))))))))
     = Inr \<lparr> Total = 0, Transferred = 0, Speed = 0 \<rparr>"
proof -
  have h: "\<forall>x\<in>set [OpAdd 1000]. \<not> is_Stat x" by simp
  from Stat_first_computes_later_zero [OF h, of exact_ops 0 5 2000000000]
  obtain a a1 where
    a: "calls exact_ops [OpAdd 1000] (newAccounter 0 5) = Inr a"
    and first: "Stat exact_ops 2000000000 a =
        (Inr \<lparr> Total = 5, Transferred = current a,
               Speed = write_speed exact_ops 2000000000 a (current a) \<rparr>, a1)"
    and later: "\<And>ops' t'. \<exists>a2. calls exact_ops ops' a1 = Inr a2
          \<and> Stat exact_ops t' a2 = (Inr (accountStat_zero exact_ops), a2)"
    by blast
  from a have a_eq: "a = snd (Add 1000 (newAccounter 0 5))" by simp
  from later [of "[OpAdd 7]" 3000000000]
  have l: "Stat exact_ops 3000000000 (snd (Add 7 a1)) = (Inr (accountStat_zero exact_ops), snd (Add 7 a1))"
    by simp
  have w: "write_speed exact_ops 2000000000 a (current a) = 500"
    by (simp add: a_eq Add_eq newAccounter_def write_speed_def exact_ops_def time_Sub_def
        time_Second_def Let_def word_sless_alt)
  have c: "current a = 1000" by (simp add: a_eq Add_eq newAccounter_def)
  from first l w c show ?thesis
    by (simp add: a_eq [symmetric] accountStat_zero_def exact_ops_def)
qed

text \<open>
  C1 as stated fails: on a counter with total 5, the second call of \<open>Stat\<close> does
  not return what the first call returned.
\<close>

theorem Stat_repeat_counterexample:
  "fst (Stat exact_ops 2 (snd (Stat exact_ops 1 (newAccounter 0 5))))
     \<noteq> fst (Stat exact_ops 1 (newAccounter 0 5))"
  by (simp add: Stat_state Stat_done Stat_first newAccounter_def accountStat_zero_def)

subsection \<open>Arithmetic of \<open>int64\<close> without overflow\<close>

lemma sint_word_of_int_in_range:
  "- (2 ^ 63) \<le> k \<Longrightarrow> k < 2 ^ 63 \<Longrightarrow> sint (word_of_int k :: int64) = k"
  by (simp add: signed_of_int signed_take_bit_int_eq_self)

lemma sint_add_in_range:
  fixes x y :: int64
  assumes "- (2 ^ 63) \<le> sint x + sint y" "sint x + sint y < 2 ^ 63"
  shows "sint (x + y) = sint x + sint y"
proof -
  have "x + y = word_of_int (sint x + sint y)" by simp
  then show ?thesis using sint_word_of_int_in_range [OF assms] by simp
qed

lemma sint_add_of_nat_in_range:
  fixes x :: int64
  assumes "sint x + int n < 2 ^ 63"
  shows "sint (x + of_nat n) = sint x + int n"
proof -
  have "x + of_nat n = word_of_int (sint x + int n)" by simp
  moreover have "- (2 ^ 63) \<le> sint x + int n"
    using sint_ge [of x] by simp
  ultimately show ?thesis using sint_word_of_int_in_range [OF _ assms] by simp
qed

lemma sint_of_nat_in_range:
  "n < 2 ^ 63 \<Longrightarrow> sint (of_nat n :: int64) = int n"
  using sint_word_of_int_in_range [of "int n"] by simp

subsection \<open>What sequences of calls add to the counter\<close>

lemma call_amount:
  assumes "consistent a" "\<not> is_Set x" "0 \<le> amount x" "sint (current a) + amount x < 2 ^ 63"
  shows "\<exists>a'. call F x a = Inr a' \<and> consistent a'
    \<and> sint (current a') = sint (current a) + amount x"
proof (cases x)
  case (OpAdd n)
  have "- (2 ^ 63) \<le> sint (current a) + sint n"
    using assms(3) sint_ge [of "current a"] OpAdd by simp
  with assms OpAdd show ?thesis
    by (simp add: Add_eq consistent_def sint_add_in_range)
next
  case (OpSet n)
  with assms show ?thesis by simp
next
  case (OpRead p)
  with assms show ?thesis
    by (simp add: Read_eq consistent_def sint_add_of_nat_in_range)
next
  case (OpUpdate t)
  with assms show ?thesis
    by (simp add: Update_def Let_def consistent_def)
next
  case (OpStat t)
  with assms show ?thesis
    by (cases "isFinished a") (auto simp: consistent_def Stat_done Stat_first)
qed

lemma calls_amount:
  assumes "consistent a" "\<forall>x\<in>set ops. \<not> is_Set x \<and> 0 \<le> amount x"
    "sint (current a) + (\<Sum>x\<leftarrow>ops. amount x) < 2 ^ 63"
  shows "\<exists>a'. calls F ops a = Inr a' \<and> consistent a'
    \<and> sint (current a') = sint (current a) + (\<Sum>x\<leftarrow>ops. amount x)"
  using assms
proof (induction ops arbitrary: a)
  case Nil
  then show ?case by simp
next
  case (Cons x xs)
  have rest: "0 \<le> (\<Sum>y\<leftarrow>xs. amount y)"
    using Cons.prems(2) by (auto intro!: sum_list_nonneg)
  have x: "\<not> is_Set x" "0 \<le> amount x" using Cons.prems(2) by simp_all
  have "sint (current a) + amount x < 2 ^ 63"
    using Cons.prems(3) rest by simp
  from call_amount [OF Cons.prems(1) x this, of F]
  obtain b where b: "call F x a = Inr b" "consistent b"
    "sint (current b) = sint (current a) + amount x" by blast
  have "sint (current b) + (\<Sum>y\<leftarrow>xs. amount y) < 2 ^ 63"
    using Cons.prems(3) b(3) by simp
  moreover have "\<forall>y\<in>set xs. \<not> is_Set y \<and> 0 \<le> amount y"
    using Cons.prems(2) by simp
  ultimately obtain c where "calls F xs b = Inr c" "consistent c"
    "sint (current c) = sint (current b) + (\<Sum>y\<leftarrow>xs. amount y)"
    using Cons.IH [OF b(2)] by blast
  with b show ?case by simp
qed

lemma sum_list_take_le:
  assumes "\<forall>x\<in>set xs. 0 \<le> f x"
  shows "(\<Sum>x\<leftarrow>take k xs. f x) \<le> (\<Sum>x\<leftarrow>take (Suc k) xs. f x)
    \<and> (\<Sum>x\<leftarrow>take k xs. f x) \<le> (\<Sum>x\<leftarrow>xs. (f x :: int))"
  using assms
proof (induction xs arbitrary: k)
  case Nil
  then show ?case by simp
next
  case (Cons x xs)
  show ?case
  proof (cases k)
    case 0
    have "0 \<le> (\<Sum>y\<leftarrow>xs. f y)"
      using Cons.prems by (auto intro!: sum_list_nonneg)
    with 0 Cons.prems show ?thesis by simp
  next
    case (Suc j)
    from Cons.prems have "\<forall>y\<in>set xs. 0 \<le> f y" by simp
    from Cons.IH [OF this, of j] Suc show ?thesis by simp
  qed
qed

subsection \<open>The counter never decreases without \<open>Set\<close>\<close>

text \<open>
  C4 (as amended). From a consistent counter (as \<open>newAccounter\<close> builds it and every
  call keeps it), along any sequence of calls of \<open>Add\<close>, \<open>Read\<close>, \<open>Update\<close> and
  \<open>Stat\<close> in which every \<open>Add\<close> has a non-negative argument and the amounts added
  do not take the counter beyond the largest \<open>int64\<close>, no call decreases
  \<open>current\<close>: the value after \<open>k\<close> calls is at most the value after \<open>k + 1\<close> calls.
\<close>

theorem progress_never_decreases:
  assumes "consistent a" "\<forall>x\<in>set ops. \<not> is_Set x \<and> 0 \<le> amount x"
    "sint (current a) + (\<Sum>x\<leftarrow>ops. amount x) < 2 ^ 63"
  shows "\<exists>b c. calls F (take k ops) a = Inr b \<and> calls F (take (Suc k) ops) a = Inr c
    \<and> current b \<le>s current c"
proof -
  have le: "(\<Sum>x\<leftarrow>take k ops. amount x) \<le> (\<Sum>x\<leftarrow>take (Suc k) ops. amount x)"
    "(\<Sum>x\<leftarrow>take j ops. amount x) \<le> (\<Sum>x\<leftarrow>ops. amount x)" for j
    using sum_list_take_le [of ops amount] assms(2) by simp_all
  have pre: "\<forall>x\<in>set (take j ops). \<not> is_Set x \<and> 0 \<le> amount x" for j
    using assms(2) by (meson in_set_takeD)
  have bound: "sint (current a) + (\<Sum>x\<leftarrow>take j ops. amount x) < 2 ^ 63" for j
    using le(2) [of j] assms(3) by simp
  from calls_amount [OF assms(1) pre [of k] bound [of k], of F]
  obtain b where b: "calls F (take k ops) a = Inr b"
    "sint (current b) = sint (current a) + (\<Sum>x\<leftarrow>take k ops. amount x)" by blast
  from calls_amount [OF assms(1) pre [of "Suc k"] bound [of "Suc k"], of F]
  obtain c where c: "calls F (take (Suc k) ops) a = Inr c"
    "sint (current c) = sint (current a) + (\<Sum>x\<leftarrow>take (Suc k) ops. amount x)" by blast
  have "current b \<le>s current c"
    using b(2) c(2) le(1) by (simp add: word_sle_eq)
  with b(1) c(1) show ?thesis by blast
qed


text \<open>
  The hypotheses of C4 hold for a fresh counter and the calls \<open>Add(10)\<close>,
  \<open>Update()\<close>, \<open>Read\<close> of three bytes, \<open>Stat()\<close>: the counter is 10 after two calls
  and 13 after three.
\<close>

theorem progress_never_decreases_witness:
  "consistent (newAccounter 0 5)
   \<and> list_all (\<lambda>x. \<not> is_Set x \<and> 0 \<le> amount x) [OpAdd 10, OpUpdate 1000000000, OpRead [1, 2, 3], OpStat 2000000000]
   \<and> (\<exists>b c. calls exact_ops (take 2 [OpAdd 10, OpUpdate 1000000000, OpRead [1, 2, 3], OpStat 2000000000])
                (newAccounter 0 5) = Inr b
          \<and> calls exact_ops (take (Suc 2) [OpAdd 10, OpUpdate 1000000000, OpRead [1, 2, 3], OpStat 2000000000])
                (newAccounter 0 5) = Inr c
          \<and> current b = 10 \<and> current c = 13 \<and> current b \<le>s current c)"
  using progress_never_decreases
    [where a = "newAccounter 0 5" and ops = "[OpAdd 10, OpUpdate 1000000000, OpRead [1, 2, 3], OpStat 2000000000]"
       and k = 2 and F = exact_ops]
  by (simp add: newAccounter_consistent)
     (simp add: newAccounter_def Add_eq Read_eq Update_def Let_def)

text \<open>
  C4 as stated fails: \<open>Set(500)\<close> followed by \<open>Set(300)\<close> decreases the counter.
\<close>

theorem Set_decreases_counterexample:
  "calls exact_ops [OpSet 500] (newAccounter 0 0) = Inr (Set 500 (newAccounter 0 0))
   \<and> calls exact_ops [OpSet 500, OpSet 300] (newAccounter 0 0)
       = Inr (Set 300 (Set 500 (newAccounter 0 0)))
   \<and> current (Set 300 (Set 500 (newAccounter 0 0))) <s current (Set 500 (newAccounter 0 0))"
  by (simp add: Set_def word_sless_alt)

subsection \<open>\<open>Set\<close>\<close>

text \<open>
  C8. \<open>Set(n)\<close> overwrites \<open>current\<close> with \<open>n\<close> whatever it was and changes no other
  field; the receiver it returns is the struct after the store. A second \<open>Set\<close>
  makes the first one invisible: \<open>Set(500)\<close> then \<open>Set(300)\<close> leaves 300.
\<close>

theorem Set_overwrites:
  "Set n a = a\<lparr>current := n\<rparr> \<and> current (Set n a) = n
   \<and> Set m (Set n a) = Set m a \<and> current (Set 300 (Set 500 a)) = 300"
  by (simp add: Set_def)

subsection \<open>What \<open>Stat\<close> leaves unchanged\<close>

text \<open>
  C10. \<open>Stat\<close> changes at most the \<open>Once\<close> and the channel: the struct after the
  call is the struct before it when the \<open>Once\<close> had run, and otherwise the struct
  with the \<open>Once\<close> run and the channel closed. \<open>current\<close>, \<open>Total\<close>, \<open>startTime\<close>,
  \<open>startValue\<close>, \<open>refreshRate\<close> and \<open>currentValue\<close> are unchanged, and \<open>current\<close>
  is unchanged by any number of calls of \<open>Stat\<close> in a row.
\<close>

theorem Stat_frame:
  "snd (Stat F now a)
     = (if finishOnce a then a else a\<lparr>isFinished := ChanClosed, finishOnce := True\<rparr>)
   \<and> current (snd (Stat F now a)) = current a
   \<and> accounter.Total (snd (Stat F now a)) = accounter.Total a
   \<and> startTime (snd (Stat F now a)) = startTime a
   \<and> startValue (snd (Stat F now a)) = startValue a
   \<and> refreshRate (snd (Stat F now a)) = refreshRate a
   \<and> currentValue (snd (Stat F now a)) = currentValue a
   \<and> current (fold (\<lambda>t b. snd (Stat F t b)) ts a) = current a"
proof -
  have "current (fold (\<lambda>t b. snd (Stat F t b)) ts a) = current a"
    by (induction ts arbitrary: a) (simp_all add: Stat_state)
  then show ?thesis by (simp add: Stat_state)
qed

subsection \<open>\<open>Read\<close>\<close>

text \<open>
  C7 (as amended). In every state and for every buffer \<open>p\<close> of length \<open>L\<close>,
  \<open>Read(p)\<close> returns \<open>(L, nil)\<close>, the count being \<open>L\<close> as an \<open>int\<close> (which is
  \<open>L\<close> itself whenever \<open>L\<close> fits an \<open>int\<close>, as the length of every slice does),
  and stores \<open>current + L\<close>, computed in \<open>int64\<close>, changing no other field. When
  \<open>current + L\<close> does not exceed the largest \<open>int64\<close>, the counter has increased
  by exactly \<open>L\<close>.
\<close>

theorem Read_counts_and_returns_length:
  "Read p a = ((of_nat (length p), None), a\<lparr>current := current a + of_nat (length p)\<rparr>)
   \<and> fst (fst (Read p a)) = of_nat (length p)
   \<and> snd (fst (Read p a)) = None
   \<and> current (snd (Read p a)) = current a + of_nat (length p)
   \<and> (length p < 2 ^ 63 \<longrightarrow> sint (fst (fst (Read p a))) = int (length p))
   \<and> (sint (current a) + int (length p) < 2 ^ 63 \<longrightarrow>
        sint (current (snd (Read p a))) = sint (current a) + int (length p))"
  by (simp add: Read_eq sint_of_nat_in_range sint_add_of_nat_in_range)

text \<open>
  A buffer of 42 bytes read at counter 100: \<open>Read\<close> returns 42 and no error, and
  the counter is 142. A buffer of one byte read at the largest \<open>int64\<close>: \<open>Read\<close>
  returns 1 and no error, and the counter is the smallest \<open>int64\<close>.
\<close>

theorem Read_counts_and_returns_length_witness:
  "Read (replicate 42 7) (snd (Add 100 (newAccounter 0 0)))
     = ((42, None), (newAccounter 0 0)\<lparr>current := 142\<rparr>)
   \<and> sint (fst (fst (Read (replicate 42 7) (snd (Add 100 (newAccounter 0 0)))))) = 42
   \<and> sint (current (snd (Read (replicate 42 7) (snd (Add 100 (newAccounter 0 0)))))) = 142
   \<and> Read [0] (Set 9223372036854775807 (newAccounter 0 0))
     = ((1, None), (newAccounter 0 0)\<lparr>current := - 9223372036854775808\<rparr>)"
  using Read_counts_and_returns_length [where p = "replicate 42 7"
      and a = "snd (Add 100 (newAccounter 0 0))"]
    Read_counts_and_returns_length [where p = "[0]"
      and a = "Set 9223372036854775807 (newAccounter 0 0)"]
  by (simp add: Add_eq Set_def newAccounter_def)

text \<open>
  C7 as stated fails at the largest \<open>int64\<close>: after \<open>Set(9223372036854775807)\<close>,
  \<open>Read\<close> of a buffer of one byte does not leave the counter one higher (it wraps
  to the smallest \<open>int64\<close>).
\<close>

theorem Read_overflow_counterexample:
  "sint (current (snd (Read [0] (Set 9223372036854775807 (newAccounter 0 0)))))
     \<noteq> sint (current (Set 9223372036854775807 (newAccounter 0 0))) + int (length [0 :: byte])"
  by (simp add: Read_eq Set_def)

subsection \<open>\<open>Add\<close>\<close>

text \<open>
  C2 (as amended). \<open>Add(n)\<close> stores \<open>current + n\<close>, computed in \<open>int64\<close> (so modulo
  \<open>2^64\<close>), and returns the stored value, which for a non-negative \<open>n\<close> is the
  counter increased by \<open>n\<close> as long as that does not exceed the largest \<open>int64\<close>.
  For every sequence of calls \<open>Add(n_i)\<close>
  with non-negative \<open>n_i\<close> on a fresh counter, if the sum of the \<open>n_i\<close> does not
  exceed the largest \<open>int64\<close>, the counter ends at that sum.
\<close>

theorem Add_returns_new_total_and_sums:
  assumes "\<forall>m\<in>set ns. 0 \<le>s m" "(\<Sum>m\<leftarrow>ns. sint m) < 2 ^ 63"
  shows "Add n a = (current a + n, a\<lparr>current := current a + n\<rparr>)
    \<and> (0 \<le>s n \<and> sint (current a) + sint n < 2 ^ 63 \<longrightarrow>
          sint (fst (Add n a)) = sint (current a) + sint n)
    \<and> (\<exists>a'. calls F (map OpAdd ns) (newAccounter t0 tot) = Inr a'
          \<and> sint (current a') = (\<Sum>m\<leftarrow>ns. sint m))"
proof -
  have one: "sint (fst (Add n a)) = sint (current a) + sint n"
    if "0 \<le>s n" "sint (current a) + sint n < 2 ^ 63"
  proof -
    from that(1) have "- (2 ^ 63) \<le> sint (current a) + sint n"
      using sint_ge [of "current a"] by (simp add: word_sle_eq)
    from sint_add_in_range [OF this that(2)] show ?thesis by (simp add: Add_eq)
  qed
  have "\<forall>x\<in>set (map OpAdd ns). \<not> is_Set x \<and> 0 \<le> amount x"
    using assms(1) by (auto simp: word_sle_eq)
  moreover have "(\<Sum>x\<leftarrow>map OpAdd ns. amount x) = (\<Sum>m\<leftarrow>ns. sint m)"
    by (simp add: comp_def)
  moreover have "current (newAccounter t0 tot) = 0"
    by (simp add: newAccounter_def)
  ultimately show ?thesis
    using calls_amount [OF newAccounter_consistent, where ops = "map OpAdd ns" and F = F
        and ?t0.1 = t0 and tot1 = tot] assms(2) one
    by (auto simp: Add_eq)
qed

text \<open>
  \<open>Add(5)\<close> on a fresh counter returns 5; \<open>Add(1000)\<close>, \<open>Add(0)\<close>, \<open>Add(24)\<close> on a
  fresh counter end at 1024.
\<close>

theorem Add_returns_new_total_and_sums_witness:
  "Add 5 (newAccounter 0 0) = (5, (newAccounter 0 0)\<lparr>current := 5\<rparr>)
   \<and> calls exact_ops (map OpAdd [1000, 0, 24]) (newAccounter 0 0)
       = Inr ((newAccounter 0 0)\<lparr>current := 1024\<rparr>)"
  using Add_returns_new_total_and_sums [where ns = "[1000, 0, 24]" and n = 5
      and a = "newAccounter 0 0" and F = exact_ops and ?t0.0 = 0 and tot = 0]
  by (simp add: word_sle_eq Add_eq newAccounter_def)

text \<open>
  C2 as stated fails when the sum overflows: \<open>Add(9223372036854775807)\<close> then
  \<open>Add(1)\<close>, both non-negative, leave the counter at the smallest \<open>int64\<close>, not at
  the sum.
\<close>

theorem Add_sum_overflow_counterexample:
  "0 \<le>s (9223372036854775807 :: int64) \<and> 0 \<le>s (1 :: int64)
   \<and> calls exact_ops (map OpAdd [9223372036854775807, 1]) (newAccounter 0 0)
       = Inr ((newAccounter 0 0)\<lparr>current := - 9223372036854775808\<rparr>)
   \<and> sint (- 9223372036854775808 :: int64)
       \<noteq> sint (9223372036854775807 :: int64) + sint (1 :: int64)"
  by (simp add: word_sle_eq Add_eq newAccounter_def)

subsection \<open>The snapshot of the first \<open>Stat\<close>\<close>

lemma call_only_Update:
  "is_Update x \<Longrightarrow> \<exists>a'. call F x a = Inr a' \<and> current a' = current a"
  by (cases x) (simp_all add: Update_def Let_def)

lemma calls_only_Update:
  "\<forall>x\<in>set xs. is_Update x \<Longrightarrow> \<exists>a'. calls F xs a = Inr a' \<and> current a' = current a"
proof (induction xs arbitrary: a)
  case Nil
  then show ?case by simp
next
  case (Cons x xs)
  from Cons.prems have "is_Update x" by simp
  from call_only_Update [OF this, of F a]
  obtain b where b: "call F x a = Inr b" "current b = current a" by blast
  from Cons.prems have "\<forall>y\<in>set xs. is_Update y" by simp
  from Cons.IH [OF this, of b] b show ?case by simp
qed

lemma is_Update_not_Stat: "is_Update x \<Longrightarrow> \<not> is_Stat x"
  by (cases x) simp_all

lemma time_Sub_exact:
  "- (2 ^ 63) \<le> t - u \<Longrightarrow> t - u < 2 ^ 63 \<Longrightarrow> sint (time_Sub t u) = t - u"
  using sint_word_of_int_in_range [of "t - u"] by (simp add: time_Sub_def Let_def)

text \<open>
  C9. On a counter built by \<open>newAccounter\<close> on which nothing but the \<open>Update\<close> of
  the background goroutine has been called (no \<open>Add\<close>, \<open>Set\<close>, \<open>Read\<close>, and no
  \<open>Stat\<close> yet), \<open>Stat\<close> returns \<open>Transferred = 0\<close> and \<open>Speed = 0.0\<close>, the literal of
  the last line of \<open>write\<close>, with the total given at construction.
\<close>

theorem Stat_without_progress_is_zero:
  assumes "\<forall>x\<in>set ops. is_Update x"
  shows "\<exists>a. calls F ops (newAccounter t0 tot) = Inr a
    \<and> fst (Stat F now a) = Inr \<lparr> Total = tot, Transferred = 0, Speed = float64_zero F \<rparr>"
proof -
  from calls_only_Update [OF assms, of F "newAccounter t0 tot"]
  obtain a where a: "calls F ops (newAccounter t0 tot) = Inr a" "current a = 0"
    by (auto simp: newAccounter_def)
  have "\<forall>x\<in>set ops. \<not> is_Stat x"
    using assms is_Update_not_Stat by blast
  from calls_no_Stat [OF this, of F "newAccounter t0 tot"] a(1)
  have f: "\<not> finishOnce a" "isFinished a = ChanOpen" "accounter.Total a = tot"
    "startValue a = 0"
    by (auto simp: newAccounter_def)
  have "write_speed F now a 0 = float64_zero F"
    by (simp add: write_speed_def f(4) Let_def)
  with Stat_first [OF f(1,2), of F now] a f(3) show ?thesis by simp
qed

text \<open>
  A counter of total 42 with two calls of \<open>Update\<close> and nothing else.
\<close>

theorem Stat_without_progress_is_zero_witness:
  "fst (Stat exact_ops 1000000000 (Update exact_ops 200000000 (Update exact_ops 0 (newAccounter 0 42))))
     = Inr \<lparr> Total = 42, Transferred = 0, Speed = 0 \<rparr>"
  using Stat_without_progress_is_zero [where ops = "[OpUpdate 0, OpUpdate 200000000]"
      and F = exact_ops and ?t0.0 = 0 and tot = 42 and now = 1000000000]
  by (simp add: exact_ops_def)

lemma time_Sub_clamp:
  "time_Sub t u = word_of_int (max (- (2 ^ 63)) (min (2 ^ 63 - 1) (t - u)))"
  by (simp add: time_Sub_def Let_def max_def min_def)

text \<open>
  C3. On a counter built by \<open>newAccounter\<close> at time \<open>t0\<close> and used through any calls
  other than \<open>Stat\<close>, \<open>startValue\<close> is 0 and \<open>startTime\<close> is \<open>t0\<close>, and the first
  \<open>Stat\<close>, at time \<open>now\<close>, reports this speed: when \<open>current - startValue\<close> is
  positive, the \<open>float64\<close> quotient of \<open>current - startValue\<close> by the elapsed time in
  seconds, itself the \<open>float64\<close> quotient of the elapsed nanoseconds by the
  \<open>1000000000\<close> nanoseconds of a second; and the literal \<open>0.0\<close> when
  \<open>current - startValue\<close> is zero or negative. The elapsed nanoseconds are the
  difference \<open>now - t0\<close> of the two clock readings, as an \<open>int64\<close> (beyond the
  range of \<open>int64\<close>, some 292 years, the nearest bound).
\<close>

theorem Stat_speed_formula:
  assumes "\<forall>x\<in>set ops. \<not> is_Stat x"
  shows "\<exists>a. calls F ops (newAccounter t0 tot) = Inr a
    \<and> startValue a = 0 \<and> startTime a = t0
    \<and> fst (Stat F now a) =
        Inr \<lparr> Total = tot, Transferred = current a,
              Speed =
                (if 0 < sint (current a) - sint (startValue a)
                 then float64_div F (float64_of F (current a - startValue a))
                        (float64_div F
                           (float64_of F
                              (word_of_int (max (- (2 ^ 63)) (min (2 ^ 63 - 1) (now - t0)))))
                           (float64_of F 1000000000))
                 else float64_zero F) \<rparr>"
proof -
  from calls_no_Stat [OF assms, of F "newAccounter t0 tot"]
  obtain a where a: "calls F ops (newAccounter t0 tot) = Inr a" "\<not> finishOnce a"
    "isFinished a = ChanOpen" "startValue a = 0" "startTime a = t0" "accounter.Total a = tot"
    by (auto simp: newAccounter_def)
  from Stat_first [OF a(2,3), of F now] a show ?thesis
    by (simp add: write_speed_def Let_def word_sless_alt time_Sub_clamp time_Second_def)
qed

text \<open>
  A counter built when the clock reads 1 second, 1000 units, \<open>Stat\<close> when the
  clock reads 3 seconds: the 2 seconds elapsed give the speed
  \<open>1000 / (2000000000 / 1000000000)\<close>, which is 500. A counter set to \<open>-3\<close>
  gives the speed 0.
\<close>

theorem Stat_speed_formula_witness:
  "fst (Stat exact_ops 3000000000 (snd (Add 1000 (newAccounter 1000000000 5))))
     = Inr \<lparr> Total = 5, Transferred = 1000, Speed = 1000 / (2000000000 / 1000000000) \<rparr>
   \<and> fst (Stat exact_ops 3000000000 (snd (Add 1000 (newAccounter 1000000000 5))))
     = Inr \<lparr> Total = 5, Transferred = 1000, Speed = 500 \<rparr>
   \<and> fst (Stat exact_ops 3000000000 (Set (- 3) (newAccounter 1000000000 5)))
     = Inr \<lparr> Total = 5, Transferred = - 3, Speed = 0 \<rparr>"
proof -
  have h: "\<forall>x\<in>set [OpAdd 1000]. \<not> is_Stat x" by simp
  have h': "\<forall>x\<in>set [OpSet (- 3)]. \<not> is_Stat x" by simp
  show ?thesis
    using Stat_speed_formula [OF h, of exact_ops 1000000000 5 3000000000]
      Stat_speed_formula [OF h', of exact_ops 1000000000 5 3000000000]
    by (simp add: Add_eq Set_def newAccounter_def exact_ops_def)
qed

subsection \<open>The invariant of the concurrent system\<close>


lemma Update_keeps [simp]:
  "isFinished (Update F now a) = isFinished a" "finishOnce (Update F now a) = finishOnce a"
  by (simp_all add: Update_def Let_def)








subsection \<open>\<open>Stat\<close> among other goroutines\<close>

text \<open>
  With no goroutine inside the \<open>Once\<close>, the actions of one call of \<open>Stat\<close> in a
  row are the method \<open>Stat\<close>.
\<close>

lemma Stat_as_actions:
  assumes "in_Do s = None"
  shows "run F (if finishOnce (acct s) then [StatBegin g] else [StatBegin g, StatEnd g now]) s =
    (case Stat F now (acct s) of
       (Inl e, a') \<Rightarrow> Some (Inl e)
     | (Inr st, a') \<Rightarrow>
         Some (Inr (s\<lparr>acct := a', returned := (g, st) # returned s,
           trace := (if finishOnce (acct s) then trace s else EvClose # trace s)\<rparr>)))"
  using assms
  by (cases "isFinished (acct s)")
     (simp_all add: Stat_def Stat_body_begin_def Stat_body_end_def close_def Let_def)

lemma WriterStop_enabled:
  "writer_at s = WSelect \<Longrightarrow> isFinished (acct s) = ChanClosed \<Longrightarrow>
   \<exists>s'. step F WriterStop s = Some (Inr s') \<and> writer_at s' = WReturned"
  by simp

lemma writer_returned_disabled:
  "writer_at s = WReturned \<Longrightarrow>
   step F (WriterStart t) s = None \<and> step F (WriterTick t) s = None \<and> step F WriterStop s = None"
  by simp

text \<open>
  Whatever the schedule, every call of \<open>Stat\<close> but the first to return (the one
  that ran the function of the \<open>Once\<close>) returns the zero \<open>accountStat\<close>.
\<close>

lemma start_returned_inv: "returned_inv F (start t0 tot)"
  by (simp add: returned_inv_def start_def newAccounter_def)

lemma step_returned_inv:
  assumes "returned_inv F s" "step F x s = Some (Inr s')"
  shows "returned_inv F s'"
proof (cases x)
  case (GoAdd n)
  with assms show ?thesis by (auto simp: returned_inv_def Add_eq)
next
  case (GoSet n)
  with assms show ?thesis by (auto simp: returned_inv_def Set_def)
next
  case (GoRead p)
  with assms show ?thesis by (auto simp: returned_inv_def Read_eq)
next
  case (StatBegin g)
  with assms(2) have idle: "in_Do s = None" by (simp split: option.splits)
  show ?thesis
  proof (cases "finishOnce (acct s)")
    case True
    with assms(2) StatBegin idle
    have "s' = s\<lparr>returned := (g, accountStat_zero F) # returned s\<rparr>" by simp
    with assms(1) True show ?thesis by (simp add: returned_inv_def)
  next
    case False
    with assms(2) StatBegin idle obtain acntStat a' where
      "Stat_body_begin (accountStat_zero F) (acct s) = Inr (acntStat, a')"
      "s' = s\<lparr>acct := a', in_Do := Some (g, acntStat), trace := EvClose # trace s\<rparr>"
      by (auto split: sum.splits)
    moreover from this(1) have "finishOnce a' = finishOnce (acct s)"
      by (auto simp: Stat_body_begin_def split: sum.splits)
    ultimately show ?thesis using assms(1) False by (simp add: returned_inv_def)
  qed
next
  case (StatEnd g t)
  with assms(2) obtain acntStat where d: "in_Do s = Some (g, acntStat)"
    by (auto split: option.splits if_splits)
  with assms(2) StatEnd
  have "s' = s\<lparr>acct := (acct s)\<lparr>finishOnce := True\<rparr>, in_Do := None,
      returned := (g, Stat_body_end F t acntStat (acct s)) # returned s\<rparr>"
    by simp
  with assms(1) d show ?thesis by (simp add: returned_inv_def)
next
  case (WriterStart t)
  with assms show ?thesis by (auto simp: returned_inv_def split: if_splits)
next
  case (WriterTick t)
  with assms show ?thesis by (auto simp: returned_inv_def split: if_splits)
next
  case WriterStop
  with assms show ?thesis by (auto simp: returned_inv_def split: if_splits)
qed

lemma run_returned_inv:
  "returned_inv F s \<Longrightarrow> run F sched s = Some (Inr s') \<Longrightarrow> returned_inv F s'"
proof (induction sched arbitrary: s)
  case Nil
  then show ?case by simp
next
  case (Cons x xs)
  from Cons.prems(2) obtain s1 where s1: "step F x s = Some (Inr s1)" "run F xs s1 = Some (Inr s')"
    by (auto split: option.splits sum.splits)
  from Cons.IH [OF step_returned_inv [OF Cons.prems(1) s1(1)] s1(2)] show ?case .
qed

lemma concurrent_Stat_one_snapshot:
  assumes "run F sched (start t0 tot) = Some (Inr s)"
  shows "list_all (\<lambda>x. snd x = accountStat_zero F) (butlast (returned s))"
  using run_returned_inv [OF start_returned_inv assms] by (simp add: returned_inv_def)

text \<open>
  C5 fails on the code. The function of the \<open>Once\<close> reads \<open>a.current\<close> twice,
  plainly for \<open>Transferred\<close> and with \<open>atomic.LoadInt64\<close> for \<open>Speed\<close>. When another
  goroutine executes \<open>Add(1000)\<close> between the two reads on a fresh counter, and the
  clock reads one second at the call of \<open>write\<close>, \<open>Stat\<close> returns \<open>Transferred = 0\<close>
  with \<open>Speed = 1000\<close>: the speed of 1000 units, where the speed formula at the
  reported \<open>Transferred\<close> gives 0.
\<close>

theorem Stat_torn_by_concurrent_Add:
  "map_option (map_sum id returned)
     (run exact_ops [StatBegin 1, GoAdd 1000, StatEnd 1 1000000000] (start 0 0))
     = Some (Inr [(1, \<lparr> Total = 0, Transferred = 0, Speed = 1000 \<rparr>)])
   \<and> write_speed exact_ops 1000000000 (newAccounter 0 0) 0 = 0
   \<and> write_speed exact_ops 1000000000 (newAccounter 0 0) 1000 = 1000"
  by (simp add: start_def newAccounter_def Add_eq Stat_body_begin_def Stat_body_end_def
      close_def write_speed_def accountStat_zero_def exact_ops_def time_Sub_def time_Second_def
      word_sless_alt Let_def)

end
